theory Spec2Isabelle
  imports Main "HOL-Library.Sublist"
begin

section \<open>The ShivyC parser (parser.py)\<close>

subsection \<open>Data the parser works on\<close>

text \<open>
  Modelled from the spec: the module \<^verbatim>\<open>token_kinds\<close> is not part of the source
  file. The parser names nine kinds (\<^verbatim>\<open>int_kw\<close>, \<^verbatim>\<open>main\<close>, \<^verbatim>\<open>open_paren\<close>,
  \<^verbatim>\<open>close_paren\<close>, \<^verbatim>\<open>open_brack\<close>, \<^verbatim>\<open>close_brack\<close>, \<^verbatim>\<open>return_kw\<close>,
  \<^verbatim>\<open>semicolon\<close>, \<^verbatim>\<open>number\<close>) and only compares kinds for equality. The
  constructor \<open>other_kind\<close> stands for a kind the grammar never asks for.
\<close>

datatype token_kind =
  int_kw | main | open_paren | close_paren | open_brack | close_brack
  | return_kw | semicolon | number | other_kind

text \<open>
  A token as the parser reads it: \<^verbatim>\<open>kind\<close>, \<^verbatim>\<open>content\<close>, \<^verbatim>\<open>file_name\<close>,
  \<^verbatim>\<open>line_num\<close>.
\<close>

record token =
  kind :: token_kind
  content :: string
  file_name :: string
  line_num :: int

text \<open>
  Modelled from the spec: \<^verbatim>\<open>errors.CompilerError\<close> is not part of the source file.
  It is built from a message and, optionally, a file name and a line number
  (\<^verbatim>\<open>CompilerError(msg)\<close>, \<^verbatim>\<open>CompilerError(msg, file_name, line_num)\<close>).
\<close>

datatype compiler_error = CompilerError string "string option" "int option"

text \<open>
  Modelled from the spec: the module \<^verbatim>\<open>ast\<close> is not part of the source file. The
  parser builds \<^verbatim>\<open>NumberNode(token)\<close>, \<^verbatim>\<open>ReturnNode(node)\<close> and
  \<^verbatim>\<open>MainNode(nodes)\<close>. A node object is taken to be truthy, as a Python object
  without \<^verbatim>\<open>__bool__\<close> or \<^verbatim>\<open>__len__\<close> is; \<^verbatim>\<open>None\<close> is the only falsy
  value that \<^verbatim>\<open>if not node\<close> meets.
\<close>

datatype node = NumberNode token | ReturnNode node | MainNode "node list"

text \<open>What a call can raise: a \<^verbatim>\<open>CompilerError\<close>, or one of Python's own errors.\<close>

datatype exn = Raised compiler_error | IndexError | ValueError

text \<open>The object state: \<^verbatim>\<open>self.errors\<close>, a list of pairs (error, index).\<close>

record parser =
  errors :: "(compiler_error \<times> int) list"

text \<open>\<^verbatim>\<open>__init__\<close>: the log starts empty.\<close>

definition init :: parser where
  "init = \<lparr>errors = []\<rparr>"

subsection \<open>Python's list operations\<close>

text \<open>
  \<^verbatim>\<open>xs[i]\<close>: a negative index counts from the end, and an index out of range raises
  \<^verbatim>\<open>IndexError\<close>.
\<close>

definition py_index :: "'a list \<Rightarrow> int \<Rightarrow> exn + 'a" where
  "py_index xs i =
     (if 0 \<le> i
      then (if i < int (length xs) then Inr (xs ! nat i) else Inl IndexError)
      else (if - i \<le> int (length xs) then Inr (xs ! nat (int (length xs) + i))
            else Inl IndexError))"

text \<open>\<^verbatim>\<open>xs[i:]\<close>: a negative start counts from the end and is clamped at the start.\<close>

definition py_slice_from :: "'a list \<Rightarrow> int \<Rightarrow> 'a list" where
  "py_slice_from xs i =
     (if i < 0 then drop (nat (int (length xs) + i)) xs else drop (nat i) xs)"

text \<open>
  \<^verbatim>\<open>match_tokens\<close> returns \<^verbatim>\<open>False\<close> on one path and an integer on the others;
  the caller tests the value for truth and adds it to the index.
\<close>

datatype py_value = PyBool bool | PyInt int

fun truthy :: "py_value \<Rightarrow> bool" where
  "truthy (PyBool b) = b"
| "truthy (PyInt n) = (n \<noteq> 0)"

fun int_of :: "py_value \<Rightarrow> int" where
  "int_of (PyBool b) = (if b then 1 else 0)"
| "int_of (PyInt n) = n"

subsection \<open>Utility functions of the parser\<close>

definition match_tokens :: "token list \<Rightarrow> token_kind list \<Rightarrow> py_value" where
  "match_tokens tokens kinds_expected =
     (if length tokens < length kinds_expected then PyBool False
      else if list_all (\<lambda>(k, t). k = kind t) (zip kinds_expected tokens)
      then PyInt (int (length kinds_expected))
      else PyInt 0)"

definition AT :: int where "AT = 1"
definition GOT :: int where "GOT = 2"
definition AFTER :: int where "AFTER = 3"

text \<open>
  \<^verbatim>\<open>make_error\<close>: the empty list first, then the two boundary rules, then the
  phrasing. An unknown message type raises \<^verbatim>\<open>ValueError\<close>.
\<close>

definition make_error :: "string \<Rightarrow> int \<Rightarrow> token list \<Rightarrow> int \<Rightarrow> exn + compiler_error" where
  "make_error message index tokens message_type =
     (if length tokens = 0
      then Inr (CompilerError (message @ '' at beginning of source'') None None)
      else
        let (index, message_type) =
              (if index \<ge> int (length tokens) then (int (length tokens), AFTER)
               else if index \<le> 0
               then (0, if message_type = AFTER then GOT else message_type)
               else (index, message_type))
        in
          if message_type = AT then
            (case py_index tokens index of
               Inl e \<Rightarrow> Inl e
             | Inr t \<Rightarrow>
                 Inr (CompilerError (message @ '' at '' @ [CHR 0x27] @ content t @ [CHR 0x27])
                        (Some (file_name t)) (Some (line_num t))))
          else if message_type = GOT then
            (case py_index tokens index of
               Inl e \<Rightarrow> Inl e
             | Inr t \<Rightarrow>
                 Inr (CompilerError (message @ '', got '' @ [CHR 0x27] @ content t @ [CHR 0x27])
                        (Some (file_name t)) (Some (line_num t))))
          else if message_type = AFTER then
            (case py_index tokens (index - 1) of
               Inl e \<Rightarrow> Inl e
             | Inr t \<Rightarrow>
                 Inr (CompilerError (message @ '' after '' @ [CHR 0x27] @ content t @ [CHR 0x27])
                        (Some (file_name t)) (Some (line_num t))))
          else Inl ValueError)"

text \<open>
  \<^verbatim>\<open>add_error\<close>: appends (error, index) to the log and returns \<^verbatim>\<open>(None, 0)\<close>.
\<close>

definition add_error ::
  "string \<Rightarrow> int \<Rightarrow> token list \<Rightarrow> int \<Rightarrow> parser \<Rightarrow> (exn + node option \<times> int) \<times> parser" where
  "add_error message index tokens message_type p =
     (case make_error message index tokens message_type of
        Inl e \<Rightarrow> (Inl e, p)
      | Inr err \<Rightarrow> (Inr (None, 0), p\<lparr>errors := errors p @ [(err, index)]\<rparr>))"

text \<open>
  The test \<^verbatim>\<open>len(tokens) > index and tokens[index].kind == k\<close>, which the source
  writes three times: the comparison of lengths first, the read only when it holds.
\<close>

definition has_kind_at :: "token list \<Rightarrow> int \<Rightarrow> token_kind \<Rightarrow> exn + bool" where
  "has_kind_at tokens index k =
     (if int (length tokens) > index
      then (case py_index tokens index of Inl e \<Rightarrow> Inl e | Inr t \<Rightarrow> Inr (kind t = k))
      else Inr False)"

subsection \<open>The matchers\<close>

definition expect_expression ::
  "token list \<Rightarrow> int \<Rightarrow> parser \<Rightarrow> (exn + node option \<times> int) \<times> parser" where
  "expect_expression tokens index p =
     (case py_index tokens index of
        Inl e \<Rightarrow> (Inl e, p)
      | Inr t \<Rightarrow>
          if kind t = number then (Inr (Some (NumberNode t), index + 1), p)
          else add_error ''expected number'' index tokens GOT p)"

definition expect_return ::
  "token list \<Rightarrow> int \<Rightarrow> parser \<Rightarrow> (exn + node option \<times> int) \<times> parser" where
  "expect_return tokens index p =
     (case has_kind_at tokens index return_kw of
        Inl e \<Rightarrow> (Inl e, p)
      | Inr b \<Rightarrow>
          if \<not> b then add_error ''expected return keyword'' index tokens GOT p
          else
            (case expect_expression tokens (index + 1) p of
               (Inl e, p1) \<Rightarrow> (Inl e, p1)
             | (Inr (None, _), p1) \<Rightarrow> (Inr (None, 0), p1)
             | (Inr (Some n, index2), p1) \<Rightarrow>
                 (case has_kind_at tokens index2 semicolon of
                    Inl e \<Rightarrow> (Inl e, p1)
                  | Inr b2 \<Rightarrow>
                      if b2 then (Inr (Some (ReturnNode n), index2 + 1), p1)
                      else add_error ''expected semicolon'' index2 tokens AFTER p1)))"

definition expect_statement ::
  "token list \<Rightarrow> int \<Rightarrow> parser \<Rightarrow> (exn + node option \<times> int) \<times> parser" where
  "expect_statement tokens index p =
     (case expect_return tokens index p of
        (Inl e, p1) \<Rightarrow> (Inl e, p1)
      | (Inr (n, index1), p1) \<Rightarrow> (Inr (n, index1), p1))"

text \<open>
  The \<^verbatim>\<open>while True\<close> loop of \<^verbatim>\<open>expect_main\<close>: a statement that matches is appended
  and the loop goes on from the new index; one that does not match ends the loop at
  the index from before the attempt.
\<close>

function statements_loop ::
  "token list \<Rightarrow> int \<Rightarrow> node list \<Rightarrow> parser \<Rightarrow> (exn + node list \<times> int) \<times> parser" where
  "statements_loop tokens index nodes p =
     (case expect_statement tokens index p of
        (Inl e, p1) \<Rightarrow> (Inl e, p1)
      | (Inr (None, _), p1) \<Rightarrow> (Inr (nodes, index), p1)
      | (Inr (Some n, index1), p1) \<Rightarrow> statements_loop tokens index1 (nodes @ [n]) p1)"
  by pat_completeness auto
termination
proof (relation "measure (\<lambda>(tokens, index, nodes, p). nat (int (length tokens) - index))")
  show "wf (measure (\<lambda>(tokens, index, nodes, p). nat (int (length tokens) - index)))"
    by simp
next
  fix tokens :: "token list" and index :: int and nodes :: "node list" and p :: parser
    and x :: "exn + node option \<times> int" and p1 :: parser and r :: "node option \<times> int"
    and o_n :: "node option" and index1 :: int and n :: node
  assume a: "(x, p1) = expect_statement tokens index p" "x = Inr r" "(o_n, index1) = r"
    "o_n = Some n"
  from a have "expect_statement tokens index p = (Inr (Some n, index1), p1)"
    by simp
  then have "index1 = index + 3 \<and> index + 2 < int (length tokens)"
    by (auto simp: expect_statement_def expect_return_def expect_expression_def
          has_kind_at_def add_error_def
        split: sum.splits prod.splits option.splits if_splits)
  then show "((tokens, index1, nodes @ [n], p1), (tokens, index, nodes, p))
      \<in> measure (\<lambda>(tokens, index, nodes, p). nat (int (length tokens) - index))"
    by simp
qed

declare statements_loop.simps [simp del]

definition expect_main ::
  "token list \<Rightarrow> int \<Rightarrow> parser \<Rightarrow> (exn + node option \<times> int) \<times> parser" where
  "expect_main tokens index p =
     (let kinds_before = [int_kw, main, open_paren, close_paren, open_brack];
          match_start = match_tokens (py_slice_from tokens index) kinds_before
      in
        if truthy match_start then
          (case statements_loop tokens (index + int_of match_start) [] p of
             (Inl e, p1) \<Rightarrow> (Inl e, p1)
           | (Inr (nodes, index1), p1) \<Rightarrow>
               (case has_kind_at tokens index1 close_brack of
                  Inl e \<Rightarrow> (Inl e, p1)
                | Inr b \<Rightarrow>
                    if b then (Inr (Some (MainNode nodes), index1 + 1), p1)
                    else add_error ''expected closing brace'' index1 tokens GOT p1))
        else add_error ''expected main function starting'' index tokens AT p)"

subsection \<open>The entry point\<close>

text \<open>
  \<^verbatim>\<open>parse\<close>. \<^verbatim>\<open>sorted\<close> is stable, as \<open>sort_key\<close> is; \<^verbatim>\<open>[-1]\<close> reads the last
  element and raises \<^verbatim>\<open>IndexError\<close> on an empty list. The result keeps the parser
  object as the call leaves it, also when the call raises.
\<close>

definition parse :: "token list \<Rightarrow> parser \<Rightarrow> (exn + node) \<times> parser" where
  "parse tokens p =
     (case expect_main tokens 0 p of
        (Inl e, p1) \<Rightarrow> (Inl e, p1)
      | (Inr (None, _), p1) \<Rightarrow>
          (case py_index (sort_key snd (errors p1)) (- 1) of
             Inl e \<Rightarrow> (Inl e, p1)
           | Inr r \<Rightarrow> (Inl (Raised (fst r)), p1))
      | (Inr (Some nd, index), p1) \<Rightarrow>
          if py_slice_from tokens index \<noteq> [] then
            (case make_error ''unexpected token'' index tokens AT of
               Inl e \<Rightarrow> (Inl e, p1)
             | Inr err \<Rightarrow> (Inl (Raised err), p1))
          else (Inr nd, p1))"

subsection \<open>Notions of the specification\<close>

text \<open>
  The condition the specification gives for a match of \<^verbatim>\<open>match_tokens\<close>: at least
  as many tokens as expected kinds, and each of the first tokens has the expected kind
  at its position.
\<close>

definition kinds_match :: "token list \<Rightarrow> token_kind list \<Rightarrow> bool" where
  "kinds_match tokens kinds_expected =
     (length kinds_expected \<le> length tokens
      \<and> map kind (take (length kinds_expected) tokens) = kinds_expected)"

text \<open>A token of a sample source file, for the concrete scenarios.\<close>

definition tok :: "token_kind \<Rightarrow> string \<Rightarrow> token" where
  "tok k c = \<lparr>kind = k, content = c, file_name = ''main.c'', line_num = 1\<rparr>"

text \<open>
  The three phrasings of the specification: AT is the message, then \<^verbatim>\<open>at\<close> and the
  quoted token text; GOT is the message, then \<^verbatim>\<open>, got\<close> and the quoted token text;
  AFTER is the message, then \<^verbatim>\<open>after\<close> and the quoted text of the token before.
  Each carries the file name and the line number of the token it quotes.
\<close>

definition at_style :: "string \<Rightarrow> token \<Rightarrow> compiler_error" where
  "at_style message t =
     CompilerError (message @ '' at '' @ [CHR 0x27] @ content t @ [CHR 0x27])
       (Some (file_name t)) (Some (line_num t))"

definition got_style :: "string \<Rightarrow> token \<Rightarrow> compiler_error" where
  "got_style message t =
     CompilerError (message @ '', got '' @ [CHR 0x27] @ content t @ [CHR 0x27])
       (Some (file_name t)) (Some (line_num t))"

definition after_style :: "string \<Rightarrow> token \<Rightarrow> compiler_error" where
  "after_style message t =
     CompilerError (message @ '' after '' @ [CHR 0x27] @ content t @ [CHR 0x27])
       (Some (file_name t)) (Some (line_num t))"

text \<open>
  The token sequences of the concrete scenarios: \<^verbatim>\<open>int main ( ) { return\<close>,
  \<^verbatim>\<open>int main ( ) { return ; }\<close> and \<^verbatim>\<open>int main ( ) { return 4 ; }\<close>.
\<close>

definition truncated_return :: "token list" where
  "truncated_return =
     [tok int_kw ''int'', tok main ''main'', tok open_paren ''('', tok close_paren '')'',
      tok open_brack ''{'', tok return_kw ''return'']"

definition return_without_number :: "token list" where
  "return_without_number =
     [tok int_kw ''int'', tok main ''main'', tok open_paren ''('', tok close_paren '')'',
      tok open_brack ''{'', tok return_kw ''return'', tok semicolon '';'',
      tok close_brack ''}'']"

definition return_4 :: "token list" where
  "return_4 =
     [tok int_kw ''int'', tok main ''main'', tok open_paren ''('', tok close_paren '')'',
      tok open_brack ''{'', tok return_kw ''return'', tok number ''4'', tok semicolon '';'',
      tok close_brack ''}'']"

text \<open>The log that parsing \<^verbatim>\<open>int main ( ) { return ; }\<close> leaves in a fresh parser.\<close>

definition log_return_without_number :: parser where
  "log_return_without_number =
     \<lparr>errors =
        [(got_style ''expected number'' (tok semicolon '';''), 6),
         (got_style ''expected closing brace'' (tok return_kw ''return''), 5)]\<rparr>"

text \<open>
  The grammar of the specification: a program is the five header tokens
  \<^verbatim>\<open>int main ( ) {\<close>, then statements, then a closing brace; a statement is a
  \<^verbatim>\<open>return\<close> token, a number token and a semicolon token. A program is given by its
  header tokens, the token triples of its statements and its closing token.
\<close>

type_synonym statement_source = "token \<times> token \<times> token"

definition statement_tokens :: "statement_source \<Rightarrow> token list" where
  "statement_tokens s = (case s of (r, n, sc) \<Rightarrow> [r, n, sc])"

definition statement_ok :: "statement_source \<Rightarrow> bool" where
  "statement_ok s =
     (case s of (r, n, sc) \<Rightarrow> kind r = return_kw \<and> kind n = number \<and> kind sc = semicolon)"

definition statement_node :: "statement_source \<Rightarrow> node" where
  "statement_node s = (case s of (r, n, sc) \<Rightarrow> ReturnNode (NumberNode n))"

definition program_tokens :: "token list \<Rightarrow> statement_source list \<Rightarrow> token \<Rightarrow> token list" where
  "program_tokens header stmts cb = header @ concat (map statement_tokens stmts) @ [cb]"

definition program_ok :: "token list \<Rightarrow> statement_source list \<Rightarrow> token \<Rightarrow> bool" where
  "program_ok header stmts cb =
     (map kind header = [int_kw, main, open_paren, close_paren, open_brack]
      \<and> list_all statement_ok stmts \<and> kind cb = close_brack)"

text \<open>
  \<^verbatim>\<open>int main ( ) { return 4 ; } extra\<close>, and the log that parsing
  \<^verbatim>\<open>int main ( ) { return 4 ; }\<close> leaves in a fresh parser: the statement matcher
  has failed once, at the closing brace.
\<close>

definition return_4_extra :: "token list" where
  "return_4_extra = return_4 @ [tok other_kind ''extra'']"

definition log_return_4 :: parser where
  "log_return_4 =
     \<lparr>errors = [(got_style ''expected return keyword'' (tok close_brack ''}''), 8)]\<rparr>"

text \<open>
  The calls that can be made on a parser object, and the object after a call. The two
  utilities \<^verbatim>\<open>match_tokens\<close> and \<^verbatim>\<open>make_error\<close> never touch \<^verbatim>\<open>self.errors\<close>.
\<close>

datatype parser_call =
  Call_parse "token list"
  | Call_expect_main "token list" int
  | Call_expect_statement "token list" int
  | Call_expect_return "token list" int
  | Call_expect_expression "token list" int
  | Call_add_error string int "token list" int
  | Call_match_tokens "token list" "token_kind list"
  | Call_make_error string int "token list" int

fun after_call :: "parser \<Rightarrow> parser_call \<Rightarrow> parser" where
  "after_call p (Call_parse tokens) = snd (parse tokens p)"
| "after_call p (Call_expect_main tokens index) = snd (expect_main tokens index p)"
| "after_call p (Call_expect_statement tokens index) = snd (expect_statement tokens index p)"
| "after_call p (Call_expect_return tokens index) = snd (expect_return tokens index p)"
| "after_call p (Call_expect_expression tokens index) = snd (expect_expression tokens index p)"
| "after_call p (Call_add_error message index tokens message_type) =
     snd (add_error message index tokens message_type p)"
| "after_call p (Call_match_tokens tokens kinds_expected) = p"
| "after_call p (Call_make_error message index tokens message_type) = p"

text \<open>
  The log after parsing \<^verbatim>\<open>int main ( ) { return ; }\<close> and then the empty token list
  with the same parser.
\<close>

definition log_second_parse :: parser where
  "log_second_parse =
     \<lparr>errors =
        [(got_style ''expected number'' (tok semicolon '';''), 6),
         (got_style ''expected closing brace'' (tok return_kw ''return''), 5),
         (CompilerError ''expected main function starting at beginning of source'' None None,
          0)]\<rparr>"

section \<open>Properties\<close>

subsection \<open>List operations\<close>

lemma py_index_in_range:
  "0 \<le> i \<Longrightarrow> i < int (length xs) \<Longrightarrow> py_index xs i = Inr (xs ! nat i)"
  by (simp add: py_index_def)

lemma py_index_beyond:
  "int (length xs) \<le> i \<Longrightarrow> py_index xs i = Inl IndexError"
  by (simp add: py_index_def)

subsection \<open>The token-sequence matcher\<close>

lemma list_all_zip_kinds:
  "length ks \<le> length ts \<Longrightarrow>
   list_all (\<lambda>(k, t). k = kind t) (zip ks ts) = (map kind (take (length ks) ts) = ks)"
proof (induction ks arbitrary: ts)
  case Nil
  then show ?case by simp
next
  case (Cons k ks)
  then show ?case by (cases ts) auto
qed

lemma kinds_match_nth:
  "kinds_match tokens ks =
     (length ks \<le> length tokens \<and> (\<forall>i < length ks. kind (tokens ! i) = ks ! i))"
  by (auto simp: kinds_match_def list_eq_iff_nth_eq)

text \<open>
  C8, as the code has it. For a non-empty list of expected kinds the returned value is
  truthy exactly when the tokens match; whenever they match the value is the number of
  expected kinds, and whenever they do not it is falsy and counts as zero. For the
  empty list of expected kinds the value is the count 0, which is falsy.
\<close>

theorem match_tokens_all_or_nothing:
  "(kinds_expected \<noteq> [] \<longrightarrow>
      truthy (match_tokens tokens kinds_expected) = kinds_match tokens kinds_expected)
   \<and> (kinds_match tokens kinds_expected \<longrightarrow>
        match_tokens tokens kinds_expected = PyInt (int (length kinds_expected)))
   \<and> (\<not> kinds_match tokens kinds_expected \<longrightarrow>
        \<not> truthy (match_tokens tokens kinds_expected)
        \<and> int_of (match_tokens tokens kinds_expected) = 0)"
  by (auto simp: match_tokens_def kinds_match_def list_all_zip_kinds)

theorem match_tokens_all_or_nothing_witness:
  "[int_kw, main] \<noteq> []
   \<and> kinds_match [tok int_kw ''int'', tok main ''main'', tok open_paren ''(''] [int_kw, main]
   \<and> \<not> kinds_match [tok int_kw ''int''] [int_kw, main]
   \<and> truthy (match_tokens [tok int_kw ''int'', tok main ''main'', tok open_paren ''(''] [int_kw, main])
   \<and> match_tokens [tok int_kw ''int'', tok main ''main'', tok open_paren ''(''] [int_kw, main] = PyInt 2
   \<and> \<not> truthy (match_tokens [tok int_kw ''int''] [int_kw, main])
   \<and> int_of (match_tokens [tok int_kw ''int''] [int_kw, main]) = 0"
  using match_tokens_all_or_nothing [of "[int_kw, main]" "[tok int_kw ''int'', tok main ''main'', tok open_paren ''('']"]
    match_tokens_all_or_nothing [of "[int_kw, main]" "[tok int_kw ''int'']"]
  by (simp add: kinds_match_def tok_def)

text \<open>
  C8, as the claim states it, fails for the empty list of expected kinds: the tokens
  match, and the returned count 0 is not truthy.
\<close>

theorem match_tokens_empty_kinds_counterexample:
  "kinds_match [] [] \<and> \<not> truthy (match_tokens [] [])"
  by (simp add: match_tokens_def kinds_match_def)

subsection \<open>Error synthesis\<close>

lemma make_error_empty:
  "make_error message index [] message_type =
     Inr (CompilerError (message @ '' at beginning of source'') None None)"
  by (simp add: make_error_def)

lemma make_error_beyond:
  assumes "tokens \<noteq> []" "int (length tokens) \<le> index"
  shows "make_error message index tokens message_type = Inr (after_style message (last tokens))"
proof -
  have "py_index tokens (int (length tokens) - 1) = Inr (last tokens)"
    using assms(1) by (simp add: py_index_def last_conv_nth nat_diff_distrib')
  with assms show ?thesis
    by (simp add: make_error_def AT_def GOT_def AFTER_def after_style_def)
qed

lemma make_error_start:
  assumes "tokens \<noteq> []" "index \<le> 0"
  shows "make_error message index tokens AT = Inr (at_style message (hd tokens))"
    and "make_error message index tokens GOT = Inr (got_style message (hd tokens))"
    and "make_error message index tokens AFTER = Inr (got_style message (hd tokens))"
proof -
  have "py_index tokens 0 = Inr (hd tokens)"
    using assms(1) by (simp add: py_index_def hd_conv_nth)
  moreover have "\<not> int (length tokens) \<le> index"
    using assms by (cases tokens) auto
  ultimately show "make_error message index tokens AT = Inr (at_style message (hd tokens))"
    and "make_error message index tokens GOT = Inr (got_style message (hd tokens))"
    and "make_error message index tokens AFTER = Inr (got_style message (hd tokens))"
    using assms by (simp_all add: make_error_def AT_def GOT_def AFTER_def at_style_def got_style_def)
qed

lemma make_error_inside:
  assumes "0 < index" "index < int (length tokens)"
  shows "make_error message index tokens AT = Inr (at_style message (tokens ! nat index))"
    and "make_error message index tokens GOT = Inr (got_style message (tokens ! nat index))"
    and "make_error message index tokens AFTER =
           Inr (after_style message (tokens ! (nat index - 1)))"
proof -
  have a: "py_index tokens index = Inr (tokens ! nat index)"
    using assms by (simp add: py_index_def)
  have b: "py_index tokens (index - 1) = Inr (tokens ! (nat index - 1))"
    using assms by (simp add: py_index_def nat_diff_distrib')
  from assms have ne: "tokens \<noteq> []" by auto
  from a assms ne show "make_error message index tokens AT = Inr (at_style message (tokens ! nat index))"
    by (simp add: make_error_def AT_def GOT_def AFTER_def at_style_def)
  from a assms ne show "make_error message index tokens GOT = Inr (got_style message (tokens ! nat index))"
    by (simp add: make_error_def AT_def GOT_def AFTER_def got_style_def)
  from b assms ne show "make_error message index tokens AFTER =
           Inr (after_style message (tokens ! (nat index - 1)))"
    by (simp add: make_error_def AT_def GOT_def AFTER_def after_style_def)
qed



text \<open>
  C7. On the empty token list \<^verbatim>\<open>make_error\<close> gives the message followed by
  \<^verbatim>\<open>at beginning of source\<close> and no location, whatever the index and the style. On a
  non-empty list: an index at or beyond the end gives the AFTER form of the last token,
  whatever the style; an index at or below 0 gives the AT form of the first token for
  AT and the GOT form of the first token for GOT and for AFTER; any other index gives
  the AT or GOT form of the token at the index, or the AFTER form of the token before
  it. Every error of a non-empty list carries the file name and line number of the
  token it quotes.
\<close>

theorem make_error_boundary_rules:
  "make_error message index [] message_type =
     Inr (CompilerError (message @ '' at beginning of source'') None None)
   \<and> (tokens \<noteq> [] \<and> int (length tokens) \<le> index \<longrightarrow>
        make_error message index tokens message_type = Inr (after_style message (last tokens)))
   \<and> (tokens \<noteq> [] \<and> index \<le> 0 \<longrightarrow>
        make_error message index tokens AT = Inr (at_style message (hd tokens))
        \<and> make_error message index tokens GOT = Inr (got_style message (hd tokens))
        \<and> make_error message index tokens AFTER = Inr (got_style message (hd tokens)))
   \<and> (0 < index \<and> index < int (length tokens) \<longrightarrow>
        make_error message index tokens AT = Inr (at_style message (tokens ! nat index))
        \<and> make_error message index tokens GOT = Inr (got_style message (tokens ! nat index))
        \<and> make_error message index tokens AFTER =
            Inr (after_style message (tokens ! (nat index - 1))))"
proof (intro conjI impI)
  show "make_error message index [] message_type =
     Inr (CompilerError (message @ '' at beginning of source'') None None)"
    by (rule make_error_empty)
next
  assume "tokens \<noteq> [] \<and> int (length tokens) \<le> index"
  then show "make_error message index tokens message_type =
      Inr (after_style message (last tokens))"
    by (simp add: make_error_beyond)
next
  assume a: "tokens \<noteq> [] \<and> index \<le> 0"
  then show "make_error message index tokens AT = Inr (at_style message (hd tokens))"
    by (simp add: make_error_start)
  from a show "make_error message index tokens GOT = Inr (got_style message (hd tokens))"
    by (simp add: make_error_start)
  from a show "make_error message index tokens AFTER = Inr (got_style message (hd tokens))"
    by (simp add: make_error_start)
next
  assume a: "0 < index \<and> index < int (length tokens)"
  then show "make_error message index tokens AT = Inr (at_style message (tokens ! nat index))"
    by (simp add: make_error_inside)
  from a show "make_error message index tokens GOT = Inr (got_style message (tokens ! nat index))"
    by (simp add: make_error_inside)
  from a show "make_error message index tokens AFTER =
      Inr (after_style message (tokens ! (nat index - 1)))"
    by (simp add: make_error_inside)
qed

theorem make_error_boundary_rules_witness:
  "make_error ''expected semicolon'' 7 [] AFTER =
     Inr (CompilerError ''expected semicolon at beginning of source'' None None)
   \<and> make_error ''expected semicolon'' 2 [tok return_kw ''return'', tok number ''15''] GOT =
       Inr (CompilerError (''expected semicolon after '' @ [CHR 0x27] @ ''15'' @ [CHR 0x27])
              (Some ''main.c'') (Some 1))
   \<and> make_error ''expected semicolon'' 0 [tok return_kw ''return'', tok number ''15''] AFTER =
       Inr (CompilerError (''expected semicolon, got '' @ [CHR 0x27] @ ''return'' @ [CHR 0x27])
              (Some ''main.c'') (Some 1))
   \<and> make_error ''expected semicolon'' 1 [tok return_kw ''return'', tok number ''15''] AFTER =
       Inr (CompilerError (''expected semicolon after '' @ [CHR 0x27] @ ''return'' @ [CHR 0x27])
              (Some ''main.c'') (Some 1))
   \<and> make_error ''expected semicolon'' 1 [tok return_kw ''return'', tok number ''15''] AT =
       Inr (CompilerError (''expected semicolon at '' @ [CHR 0x27] @ ''15'' @ [CHR 0x27])
              (Some ''main.c'') (Some 1))"
  using make_error_boundary_rules [of "''expected semicolon''" 7 AFTER "[]"]
    make_error_boundary_rules [of "''expected semicolon''" 2 GOT "[tok return_kw ''return'', tok number ''15'']"]
    make_error_boundary_rules [of "''expected semicolon''" 0 AFTER "[tok return_kw ''return'', tok number ''15'']"]
    make_error_boundary_rules [of "''expected semicolon''" 1 AFTER "[tok return_kw ''return'', tok number ''15'']"]
  by (simp add: tok_def at_style_def got_style_def after_style_def)

subsection \<open>What each matcher can return\<close>

lemma add_error_cases:
  assumes "add_error message index tokens message_type p = (r, p')"
  shows "(\<exists>e. r = Inl e \<and> p' = p)
     \<or> (r = Inr (None, 0) \<and> (\<exists>err. errors p' = errors p @ [(err, index)]))"
  using assms by (auto simp: add_error_def split: sum.splits)

lemma has_kind_at_True:
  "has_kind_at tokens index k = Inr True \<Longrightarrow> index < int (length tokens)"
  by (auto simp: has_kind_at_def split: if_splits)

lemma expect_expression_cases:
  assumes "expect_expression tokens index p = (r, p')"
  shows "(\<exists>e. r = Inl e \<and> p' = p)
     \<or> (\<exists>t. r = Inr (Some (NumberNode t), index + 1) \<and> p' = p)
     \<or> (r = Inr (None, 0) \<and> (\<exists>err. errors p' = errors p @ [(err, index)]))"
proof (cases "py_index tokens index")
  case (Inl e)
  with assms show ?thesis by (auto simp: expect_expression_def)
next
  case (Inr t)
  show ?thesis
  proof (cases "kind t = number")
    case True
    with Inr assms show ?thesis by (auto simp: expect_expression_def)
  next
    case False
    with Inr assms have "add_error ''expected number'' index tokens GOT p = (r, p')"
      by (simp add: expect_expression_def)
    from add_error_cases [OF this] show ?thesis by blast
  qed
qed

lemma expect_return_cases:
  assumes "expect_return tokens index p = (r, p')"
  shows "(\<exists>e. r = Inl e \<and> p' = p)
     \<or> (\<exists>n. r = Inr (Some (ReturnNode n), index + 3) \<and> p' = p
            \<and> index + 2 < int (length tokens))
     \<or> (r = Inr (None, 0) \<and> (\<exists>err j. errors p' = errors p @ [(err, j)]))"
proof (cases "has_kind_at tokens index return_kw")
  case (Inl e)
  with assms show ?thesis by (auto simp: expect_return_def)
next
  case (Inr b)
  show ?thesis
  proof (cases b)
    case False
    with Inr assms have "add_error ''expected return keyword'' index tokens GOT p = (r, p')"
      by (simp add: expect_return_def)
    from add_error_cases [OF this] show ?thesis by blast
  next
    case True
    obtain r1 p1 where e: "expect_expression tokens (index + 1) p = (r1, p1)"
      by (cases "expect_expression tokens (index + 1) p")
    from expect_expression_cases [OF e] 
    consider (raised) e1 where "r1 = Inl e1" "p1 = p"
      | (matched) t where "r1 = Inr (Some (NumberNode t), index + 2)" "p1 = p"
      | (failed) err where "r1 = Inr (None, 0)" "errors p1 = errors p @ [(err, index + 1)]"
      by (auto simp: add.assoc)
    then show ?thesis
    proof cases
      case raised
      with Inr True e assms show ?thesis by (auto simp: expect_return_def)
    next
      case failed
      with Inr True e assms show ?thesis by (auto simp: expect_return_def)
    next
      case matched
      show ?thesis
      proof (cases "has_kind_at tokens (index + 2) semicolon")
        case (Inl e2)
        with matched Inr True e assms show ?thesis by (auto simp: expect_return_def)
      next
        case b2: (Inr b2)
        show ?thesis
        proof (cases b2)
          case True
          with b2 have "index + 2 < int (length tokens)"
            by (simp add: has_kind_at_True)
          with True b2 matched Inr \<open>b\<close> e assms show ?thesis
            by (auto simp: expect_return_def)
        next
          case False
          with b2 matched Inr \<open>b\<close> e assms
          have "add_error ''expected semicolon'' (index + 2) tokens AFTER p = (r, p')"
            by (simp add: expect_return_def)
          from add_error_cases [OF this] show ?thesis by blast
        qed
      qed
    qed
  qed
qed

lemma expect_statement_cases:
  assumes "expect_statement tokens index p = (r, p')"
  shows "(\<exists>e. r = Inl e \<and> p' = p)
     \<or> (\<exists>n. r = Inr (Some (ReturnNode n), index + 3) \<and> p' = p
            \<and> index + 2 < int (length tokens))
     \<or> (r = Inr (None, 0) \<and> (\<exists>err j. errors p' = errors p @ [(err, j)]))"
proof -
  obtain r1 p1 where e: "expect_return tokens index p = (r1, p1)"
    by (cases "expect_return tokens index p")
  with assms have "r = r1 \<and> p' = p1"
    by (auto simp: expect_statement_def split: sum.splits prod.splits)
  with expect_return_cases [OF e] show ?thesis by simp
qed

lemma statements_loop_cases:
  "statements_loop tokens index nodes p = (r, p') \<Longrightarrow>
   (\<exists>e. r = Inl e \<and> p' = p)
   \<or> (\<exists>ns err j. r = Inr (nodes @ ns, index + 3 * int (length ns))
          \<and> (ns = [] \<or> index + 3 * int (length ns) \<le> int (length tokens))
          \<and> errors p' = errors p @ [(err, j)])"
proof (induction tokens index nodes p rule: statements_loop.induct)
  case (1 tokens index nodes p)
  obtain r1 p1 where e: "expect_statement tokens index p = (r1, p1)"
    by (cases "expect_statement tokens index p")
  from expect_statement_cases [OF e]
  consider (raised) e1 where "r1 = Inl e1" "p1 = p"
    | (matched) n where "r1 = Inr (Some (ReturnNode n), index + 3)" "p1 = p"
        "index + 2 < int (length tokens)"
    | (failed) err j where "r1 = Inr (None, 0)" "errors p1 = errors p @ [(err, j)]"
    by blast
  then show ?case
  proof cases
    case raised
    with e "1.prems" show ?thesis by (auto simp: statements_loop.simps [of tokens index])
  next
    case failed
    with e "1.prems" have "r = Inr (nodes, index) \<and> p' = p1"
      by (simp add: statements_loop.simps [of tokens index])
    with failed show ?thesis by auto
  next
    case matched
    with e "1.prems"
    have run: "statements_loop tokens (index + 3) (nodes @ [ReturnNode n]) p = (r, p')"
      by (simp add: statements_loop.simps [of tokens index])
    from "1.IH" [of r1 p1 "(Some (ReturnNode n), index + 3)" "Some (ReturnNode n)" "index + 3"
        "ReturnNode n"] e matched run
    have "(\<exists>e. r = Inl e \<and> p' = p)
      \<or> (\<exists>ns err j. r = Inr ((nodes @ [ReturnNode n]) @ ns, index + 3 + 3 * int (length ns))
          \<and> (ns = [] \<or> index + 3 + 3 * int (length ns) \<le> int (length tokens))
          \<and> errors p' = errors p @ [(err, j)])"
      by simp
    then show ?thesis
    proof
      assume "\<exists>e. r = Inl e \<and> p' = p"
      then show ?thesis by blast
    next
      assume "\<exists>ns err j. r = Inr ((nodes @ [ReturnNode n]) @ ns, index + 3 + 3 * int (length ns))
          \<and> (ns = [] \<or> index + 3 + 3 * int (length ns) \<le> int (length tokens))
          \<and> errors p' = errors p @ [(err, j)]"
      then obtain ns err j where h: "r = Inr ((nodes @ [ReturnNode n]) @ ns, index + 3 + 3 * int (length ns))"
        "ns = [] \<or> index + 3 + 3 * int (length ns) \<le> int (length tokens)"
        "errors p' = errors p @ [(err, j)]"
        by blast
      from h(2) matched(3) have "index + 3 * int (length (ReturnNode n # ns)) \<le> int (length tokens)"
        by auto
      moreover from h(1) have "r = Inr (nodes @ (ReturnNode n # ns), index + 3 * int (length (ReturnNode n # ns)))"
        by simp
      ultimately show ?thesis using h(3) by blast
    qed
  qed
qed

lemma py_slice_from_0: "py_slice_from tokens 0 = tokens"
  by (simp add: py_slice_from_def)

lemma py_slice_from_nonempty:
  "0 \<le> index \<Longrightarrow> (py_slice_from tokens index \<noteq> []) = (index < int (length tokens))"
  by (auto simp: py_slice_from_def)

lemma match_tokens_advance:
  "truthy (match_tokens tokens ks) \<Longrightarrow> int_of (match_tokens tokens ks) = int (length ks)"
  by (auto simp: match_tokens_def split: if_splits)

lemma expect_main_cases:
  assumes "expect_main tokens index p = (r, p')"
  shows "(\<exists>e new. r = Inl e \<and> errors p' = errors p @ new)
     \<or> (\<exists>ns index'. r = Inr (Some (MainNode ns), index') \<and> index + 6 \<le> index'
            \<and> index' \<le> int (length tokens)
            \<and> (\<exists>err j. errors p' = errors p @ [(err, j)]))
     \<or> (r = Inr (None, 0) \<and> (\<exists>new err j. errors p' = errors p @ new @ [(err, j)]))"
proof (cases "truthy (match_tokens (py_slice_from tokens index)
                 [int_kw, main, open_paren, close_paren, open_brack])")
  case False
  with assms have "add_error ''expected main function starting'' index tokens AT p = (r, p')"
    by (simp add: expect_main_def)
  from add_error_cases [OF this] show ?thesis by fastforce
next
  case True
  then have adv: "int_of (match_tokens (py_slice_from tokens index)
                 [int_kw, main, open_paren, close_paren, open_brack]) = 5"
    by (simp add: match_tokens_advance)
  obtain r1 p1 where l: "statements_loop tokens (index + 5) [] p = (r1, p1)"
    by (cases "statements_loop tokens (index + 5) [] p")
  from statements_loop_cases [OF l]
  consider (raised) e1 where "r1 = Inl e1" "p1 = p"
    | (ended) ns err j where "r1 = Inr (ns, index + 5 + 3 * int (length ns))"
        "errors p1 = errors p @ [(err, j)]"
    by auto
  then show ?thesis
  proof cases
    case raised
    with True adv l assms show ?thesis by (auto simp: expect_main_def)
  next
    case ended
    let ?i1 = "index + 5 + 3 * int (length ns)"
    show ?thesis
    proof (cases "has_kind_at tokens ?i1 close_brack")
      case (Inl e2)
      with ended True adv l assms show ?thesis
        by (auto simp: expect_main_def)
    next
      case (Inr b)
      show ?thesis
      proof (cases b)
        case True
        with Inr have "?i1 < int (length tokens)"
          by (simp add: has_kind_at_True)
        with True Inr ended \<open>truthy _\<close> adv l assms show ?thesis
          by (auto simp: expect_main_def)
      next
        case False
        with Inr ended \<open>truthy _\<close> adv l assms
        have "add_error ''expected closing brace'' ?i1 tokens GOT p1 = (r, p')"
          by (simp add: expect_main_def)
        from add_error_cases [OF this] ended(2) show ?thesis by auto
      qed
    qed
  qed
qed

subsection \<open>The entry point: which error is raised\<close>

lemma last_filter_last:
  "ys \<noteq> [] \<Longrightarrow> P (last ys) \<Longrightarrow> last (filter P ys) = last ys"
  by (cases ys rule: rev_cases) simp_all

lemma last_sort_key:
  fixes f :: "'a \<Rightarrow> int"
  assumes "xs \<noteq> []"
  shows "f (last (sort_key f xs)) = Max (f ` set xs)"
    and "last (sort_key f xs) = last (filter (\<lambda>y. f y = Max (f ` set xs)) xs)"
proof -
  let ?ys = "sort_key f xs"
  from assms have ne: "?ys \<noteq> []"
    by (metis set_sort set_empty)
  have srt: "sorted (map f ?ys)"
    by (rule sorted_sort_key)
  have top: "f y \<le> f (last ?ys)" if "y \<in> set xs" for y
  proof -
    from that have "y \<in> set ?ys" by simp
    then obtain k where k: "k < length ?ys" "?ys ! k = y"
      by (metis in_set_conv_nth)
    from srt k(1) ne have "map f ?ys ! k \<le> map f ?ys ! (length ?ys - 1)"
      by (intro sorted_nth_mono) auto
    with k ne show ?thesis
      by (simp add: last_conv_nth)
  qed
  have mem: "last ?ys \<in> set xs"
    using ne last_in_set [of ?ys] by simp
  show m: "f (last ?ys) = Max (f ` set xs)"
  proof (rule sym, rule Max_eqI)
    show "finite (f ` set xs)" by simp
    show "f (last ?ys) \<in> f ` set xs" using mem by simp
    show "\<And>y. y \<in> f ` set xs \<Longrightarrow> y \<le> f (last ?ys)" using top by auto
  qed
  have "last ?ys = last (filter (\<lambda>y. f y = Max (f ` set xs)) ?ys)"
    using ne m by (simp add: last_filter_last)
  then show "last ?ys = last (filter (\<lambda>y. f y = Max (f ` set xs)) xs)"
    by (simp add: sort_key_stable)
qed

lemma py_index_last:
  "xs \<noteq> [] \<Longrightarrow> py_index xs (- 1) = Inr (last xs)"
  by (cases xs rule: rev_cases) (simp_all add: py_index_def)

lemma parse_of_failure:
  assumes "expect_main tokens 0 p = (Inr (None, i0), p1)"
  shows "errors p1 \<noteq> []"
    and "parse tokens p = (Inl (Raised (fst (last (sort_key snd (errors p1))))), p1)"
proof -
  from expect_main_cases [OF assms] show ne: "errors p1 \<noteq> []"
    by auto
  then have "sort_key snd (errors p1) \<noteq> []"
    by (metis set_sort set_empty)
  then have "py_index (sort_key snd (errors p1)) (- 1) = Inr (last (sort_key snd (errors p1)))"
    by (rule py_index_last)
  with assms show "parse tokens p = (Inl (Raised (fst (last (sort_key snd (errors p1))))), p1)"
    by (simp add: parse_def)
qed

text \<open>
  C1. When \<^verbatim>\<open>expect_main\<close> returns the failure pair, \<^verbatim>\<open>parse\<close> raises an error of
  the log as that call leaves it: its index \<open>m\<close> is the greatest of the log, so of two
  records at indices i < j the one at j wins in either order of recording, and among
  the records at index \<open>m\<close> it is the last recorded.
\<close>

theorem parse_raises_furthest_error:
  assumes "expect_main tokens 0 p = (Inr (None, i0), p1)"
  shows "\<exists>e m. parse tokens p = (Inl (Raised e), p1)
           \<and> (e, m) \<in> set (errors p1)
           \<and> (\<forall>r \<in> set (errors p1). snd r \<le> m)
           \<and> last (filter (\<lambda>r. snd r = m) (errors p1)) = (e, m)"
proof -
  let ?log = "errors p1"
  let ?r = "last (sort_key snd ?log)"
  let ?m = "Max (snd ` set ?log)"
  from parse_of_failure [OF assms] have ne: "?log \<noteq> []"
    and raised: "parse tokens p = (Inl (Raised (fst ?r)), p1)"
    by simp_all
  from last_sort_key [OF ne, of snd] have m: "snd ?r = ?m"
    and latest: "?r = last (filter (\<lambda>y. snd y = ?m) ?log)"
    by simp_all
  from ne have "sort_key snd ?log \<noteq> []"
    by (metis set_sort set_empty)
  then have "?r \<in> set (sort_key snd ?log)"
    by (rule last_in_set)
  then have mem: "(fst ?r, ?m) \<in> set ?log"
    using m by (metis prod.collapse set_sort)
  have top: "\<forall>r \<in> set ?log. snd r \<le> ?m"
    by simp
  from latest m have "last (filter (\<lambda>r. snd r = ?m) ?log) = (fst ?r, ?m)"
    by (metis prod.collapse)
  with raised mem top show ?thesis
    by blast
qed

lemma expect_main_return_without_number:
  "expect_main return_without_number 0 init = (Inr (None, 0), log_return_without_number)"
  by code_simp

theorem parse_raises_furthest_error_witness:
  "expect_main return_without_number 0 init = (Inr (None, 0), log_return_without_number)
   \<and> parse return_without_number init =
       (Inl (Raised (got_style ''expected number'' (tok semicolon '';''))),
        log_return_without_number)"
proof -
  from parse_raises_furthest_error [OF expect_main_return_without_number]
  obtain e m where h: "parse return_without_number init = (Inl (Raised e), log_return_without_number)"
    "(e, m) \<in> set (errors log_return_without_number)"
    "\<forall>r \<in> set (errors log_return_without_number). snd r \<le> m"
    by blast
  from h(2,3) have "e = got_style ''expected number'' (tok semicolon '';'')"
    by (auto simp: log_return_without_number_def)
  with h(1) expect_main_return_without_number show ?thesis
    by simp
qed

subsection \<open>A return statement without a number\<close>

lemma list_of_8_kinds:
  assumes "map kind tokens = [k0, k1, k2, k3, k4, k5, k6, k7]"
  obtains t0 t1 t2 t3 t4 t5 t6 t7 where "tokens = [t0, t1, t2, t3, t4, t5, t6, t7]"
    "kind t0 = k0" "kind t1 = k1" "kind t2 = k2" "kind t3 = k3" "kind t4 = k4"
    "kind t5 = k5" "kind t6 = k6" "kind t7 = k7"
  using assms by (auto simp: map_eq_Cons_conv)

text \<open>
  C5. For any eight tokens of the kinds of \<^verbatim>\<open>int main ( ) { return ; }\<close>, parsed by a
  fresh parser: the expression matcher records the GOT error "expected number" for the
  semicolon token at index 6, the return matcher returns the failure with that one
  record in the log, and \<^verbatim>\<open>parse\<close> raises that error although "expected closing
  brace", at index 5, was recorded after it.
\<close>

theorem return_without_number_raises_expected_number:
  assumes "map kind tokens =
     [int_kw, main, open_paren, close_paren, open_brack, return_kw, semicolon, close_brack]"
  shows "expect_expression tokens 6 init =
           (Inr (None, 0), \<lparr>errors = [(got_style ''expected number'' (tokens ! 6), 6)]\<rparr>)
    \<and> expect_return tokens 5 init =
           (Inr (None, 0), \<lparr>errors = [(got_style ''expected number'' (tokens ! 6), 6)]\<rparr>)
    \<and> parse tokens init =
           (Inl (Raised (got_style ''expected number'' (tokens ! 6))),
            \<lparr>errors = [(got_style ''expected number'' (tokens ! 6), 6),
                       (got_style ''expected closing brace'' (tokens ! 5), 5)]\<rparr>)"
proof -
  from assms obtain t0 t1 t2 t3 t4 t5 t6 t7 where
    ts: "tokens = [t0, t1, t2, t3, t4, t5, t6, t7]"
    and ks: "kind t0 = int_kw" "kind t1 = main" "kind t2 = open_paren" "kind t3 = close_paren"
      "kind t4 = open_brack" "kind t5 = return_kw" "kind t6 = semicolon" "kind t7 = close_brack"
    by (rule list_of_8_kinds)
  have e: "expect_expression tokens 6 init =
      (Inr (None, 0), \<lparr>errors = [(got_style ''expected number'' t6, 6)]\<rparr>)"
    by (simp add: ts ks expect_expression_def py_index_def add_error_def make_error_def
        AT_def GOT_def AFTER_def got_style_def init_def)
  have r: "expect_return tokens 5 init =
      (Inr (None, 0), \<lparr>errors = [(got_style ''expected number'' t6, 6)]\<rparr>)"
    using e by (simp add: ts ks expect_return_def has_kind_at_def py_index_def)
  have l: "statements_loop tokens 5 [] init =
      (Inr ([], 5), \<lparr>errors = [(got_style ''expected number'' t6, 6)]\<rparr>)"
    using r by (simp add: statements_loop.simps [of tokens 5] expect_statement_def)
  have m: "expect_main tokens 0 init =
      (Inr (None, 0), \<lparr>errors = [(got_style ''expected number'' t6, 6),
                       (got_style ''expected closing brace'' t5, 5)]\<rparr>)"
    using l by (simp add: expect_main_def py_slice_from_def match_tokens_def ts ks
        has_kind_at_def py_index_def add_error_def make_error_def
        AT_def GOT_def AFTER_def got_style_def)
  have p: "parse tokens init =
           (Inl (Raised (got_style ''expected number'' t6)),
            \<lparr>errors = [(got_style ''expected number'' t6, 6),
                       (got_style ''expected closing brace'' t5, 5)]\<rparr>)"
    using m by (simp add: parse_def py_index_def)
  from e r p show ?thesis by (simp add: ts)
qed

theorem return_without_number_raises_expected_number_witness:
  "map kind return_without_number =
     [int_kw, main, open_paren, close_paren, open_brack, return_kw, semicolon, close_brack]
   \<and> expect_expression return_without_number 6 init =
       (Inr (None, 0),
        \<lparr>errors = [(got_style ''expected number'' (tok semicolon '';''), 6)]\<rparr>)
   \<and> expect_return return_without_number 5 init =
       (Inr (None, 0),
        \<lparr>errors = [(got_style ''expected number'' (tok semicolon '';''), 6)]\<rparr>)
   \<and> parse return_without_number init =
       (Inl (Raised (CompilerError (''expected number, got '' @ [CHR 0x27] @ '';'' @ [CHR 0x27])
                       (Some ''main.c'') (Some 1))),
        log_return_without_number)"
proof -
  have k: "map kind return_without_number =
     [int_kw, main, open_paren, close_paren, open_brack, return_kw, semicolon, close_brack]"
    by (simp add: return_without_number_def tok_def)
  have "return_without_number ! 6 = tok semicolon '';''"
    and "return_without_number ! 5 = tok return_kw ''return''"
    by (simp_all add: return_without_number_def)
  with k return_without_number_raises_expected_number [OF k] show ?thesis
    by (simp add: log_return_without_number_def got_style_def tok_def)
qed

subsection \<open>The expression matcher at the end of the input\<close>

lemma expect_expression_beyond_end:
  "int (length tokens) \<le> index \<Longrightarrow> expect_expression tokens index p = (Inl IndexError, p)"
  by (simp add: expect_expression_def py_index_beyond)

text \<open>
  C4. On the tokens of \<^verbatim>\<open>int main ( ) { return\<close> the expression matcher is called with
  index 6, the length of the list. It reads \<^verbatim>\<open>tokens[6]\<close> with no test of the length,
  so it raises \<^verbatim>\<open>IndexError\<close> and records nothing; the return matcher lets the
  exception through.
\<close>

theorem expect_expression_at_end_raises_IndexError:
  "expect_expression truncated_return 6 init = (Inl IndexError, init)
   \<and> expect_return truncated_return 5 init = (Inl IndexError, init)"
  by code_simp

text \<open>
  C2. On the same tokens \<^verbatim>\<open>parse\<close> of a fresh parser neither returns a node nor
  raises a \<^verbatim>\<open>CompilerError\<close>: the \<^verbatim>\<open>IndexError\<close> of the expression matcher
  escapes, and the log stays empty.
\<close>

theorem parse_truncated_return_raises_IndexError:
  "parse truncated_return init = (Inl IndexError, init)"
  by code_simp

subsection \<open>Programs of the grammar\<close>

lemma statement_source_simps:
  "statement_tokens (r, n, sc) = [r, n, sc]"
  "statement_node (r, n, sc) = ReturnNode (NumberNode n)"
  "statement_ok (r, n, sc) = (kind r = return_kw \<and> kind n = number \<and> kind sc = semicolon)"
  by (simp_all add: statement_tokens_def statement_node_def statement_ok_def)

lemma py_index_append:
  "py_index (pre @ x # rest) (int (length pre)) = Inr x"
  by (simp add: py_index_def)

lemma has_kind_at_append:
  "has_kind_at (pre @ x # rest) (int (length pre)) k = Inr (kind x = k)"
  by (simp add: has_kind_at_def py_index_append)

lemma make_error_returns:
  assumes "message_type = AT \<or> message_type = GOT \<or> message_type = AFTER"
  shows "\<exists>err. make_error message index tokens message_type = Inr err"
proof (cases "tokens = []")
  case True
  then show ?thesis by (simp add: make_error_empty)
next
  case False
  consider "int (length tokens) \<le> index" | "index \<le> 0" | "0 < index" "index < int (length tokens)"
    by linarith
  then show ?thesis
  proof cases
    case 1
    with False show ?thesis by (simp add: make_error_beyond)
  next
    case 2
    with False assms show ?thesis by (auto simp: make_error_start)
  next
    case 3
    with assms show ?thesis by (auto simp: make_error_inside)
  qed
qed

lemma add_error_fails:
  assumes "message_type = AT \<or> message_type = GOT \<or> message_type = AFTER"
  shows "\<exists>err. add_error message index tokens message_type p =
           (Inr (None, 0), p\<lparr>errors := errors p @ [(err, index)]\<rparr>)"
proof -
  from make_error_returns [OF assms] obtain err
    where "make_error message index tokens message_type = Inr err"
    by blast
  then show ?thesis by (auto simp: add_error_def)
qed

lemma expect_statement_matches:
  assumes "kind r = return_kw" "kind n = number" "kind sc = semicolon"
  shows "expect_statement (pre @ r # n # sc # rest) (int (length pre)) p =
           (Inr (Some (ReturnNode (NumberNode n)), int (length pre) + 3), p)"
proof -
  let ?ts = "pre @ r # n # sc # rest"
  have a: "has_kind_at ?ts (int (length pre)) return_kw = Inr True"
    using assms(1) by (simp add: has_kind_at_append)
  have "py_index ((pre @ [r]) @ n # sc # rest) (int (length (pre @ [r]))) = Inr n"
    by (rule py_index_append)
  then have b: "py_index ?ts (int (length pre) + 1) = Inr n"
    by (simp add: add.commute)
  have "has_kind_at ((pre @ [r, n]) @ sc # rest) (int (length (pre @ [r, n]))) semicolon
      = Inr (kind sc = semicolon)"
    by (rule has_kind_at_append)
  then have c: "has_kind_at ?ts (int (length pre) + 2) semicolon = Inr True"
    using assms(3) by (simp add: add.commute)
  from b assms(2) have e: "expect_expression ?ts (int (length pre) + 1) p =
      (Inr (Some (NumberNode n), int (length pre) + 2), p)"
    by (simp add: expect_expression_def)
  from a e c show ?thesis
    by (simp add: expect_statement_def expect_return_def)
qed

lemma expect_statement_at_close_brack:
  assumes "kind cb = close_brack"
  shows "\<exists>err. expect_statement (pre @ cb # rest) (int (length pre)) p =
           (Inr (None, 0), p\<lparr>errors := errors p @ [(err, int (length pre))]\<rparr>)"
proof -
  have "has_kind_at (pre @ cb # rest) (int (length pre)) return_kw = Inr False"
    using assms by (simp add: has_kind_at_append)
  moreover from add_error_fails [of GOT "''expected return keyword''" "int (length pre)"
      "pre @ cb # rest" p]
  obtain err where "add_error ''expected return keyword'' (int (length pre)) (pre @ cb # rest) GOT p
      = (Inr (None, 0), p\<lparr>errors := errors p @ [(err, int (length pre))]\<rparr>)"
    by auto
  ultimately show ?thesis
    by (auto simp: expect_statement_def expect_return_def)
qed

lemma statements_loop_collects:
  assumes "list_all statement_ok stmts" "kind cb = close_brack"
  shows "\<exists>err. statements_loop (pre @ concat (map statement_tokens stmts) @ cb # rest)
             (int (length pre)) nodes p =
           (Inr (nodes @ map statement_node stmts, int (length pre) + 3 * int (length stmts)),
            p\<lparr>errors := errors p
                 @ [(err, int (length pre) + 3 * int (length stmts))]\<rparr>)"
  using assms(1)
proof (induction stmts arbitrary: pre nodes)
  case Nil
  from expect_statement_at_close_brack [OF assms(2), of pre rest p]
  show ?case
    by (auto simp: statements_loop.simps [of "pre @ cb # rest" "int (length pre)"])
next
  case (Cons s stmts)
  obtain r n sc where s: "s = (r, n, sc)"
    by (cases s)
  with Cons.prems have ks: "kind r = return_kw" "kind n = number" "kind sc = semicolon"
    and rest_ok: "list_all statement_ok stmts"
    by (simp_all add: statement_source_simps)
  let ?rest = "concat (map statement_tokens stmts) @ cb # rest"
  let ?ts = "pre @ r # n # sc # ?rest"
  have step: "expect_statement ?ts (int (length pre)) p =
      (Inr (Some (ReturnNode (NumberNode n)), int (length pre) + 3), p)"
    using ks by (rule expect_statement_matches)
  from Cons.IH [OF rest_ok, of "pre @ [r, n, sc]" "nodes @ [ReturnNode (NumberNode n)]"]
  obtain err where "statements_loop ((pre @ [r, n, sc]) @ ?rest)
       (int (length (pre @ [r, n, sc]))) (nodes @ [ReturnNode (NumberNode n)]) p =
     (Inr ((nodes @ [ReturnNode (NumberNode n)]) @ map statement_node stmts,
           int (length (pre @ [r, n, sc])) + 3 * int (length stmts)),
      p\<lparr>errors := errors p
           @ [(err, int (length (pre @ [r, n, sc])) + 3 * int (length stmts))]\<rparr>)"
    by blast
  then have "statements_loop ?ts (int (length pre) + 3) (nodes @ [ReturnNode (NumberNode n)]) p =
     (Inr (nodes @ map statement_node (s # stmts), int (length pre) + 3 * int (length (s # stmts))),
      p\<lparr>errors := errors p
           @ [(err, int (length pre) + 3 * int (length (s # stmts)))]\<rparr>)"
    by (simp add: s statement_source_simps add.commute add.left_commute)
  with step have "statements_loop ?ts (int (length pre)) nodes p =
     (Inr (nodes @ map statement_node (s # stmts), int (length pre) + 3 * int (length (s # stmts))),
      p\<lparr>errors := errors p
           @ [(err, int (length pre) + 3 * int (length (s # stmts)))]\<rparr>)"
    by (simp add: statements_loop.simps [of ?ts "int (length pre)"])
  then show ?case
    by (auto simp: s statement_source_simps)
qed

lemma length_concat_statement_tokens:
  "length (concat (map statement_tokens stmts)) = 3 * length stmts"
  by (induction stmts) (auto simp: statement_tokens_def)

text \<open>
  C3. For every token sequence of the grammar, whatever the contents, file names and
  line numbers of its tokens and whatever the log of the parser, \<^verbatim>\<open>parse\<close> returns
  a \<^verbatim>\<open>MainNode\<close> whose i-th statement is the \<^verbatim>\<open>ReturnNode\<close> of the
  \<^verbatim>\<open>NumberNode\<close> of the number token of the i-th statement.
\<close>

theorem parse_accepts_grammar:
  assumes "program_ok header stmts cb"
  shows "fst (parse (program_tokens header stmts cb) p) =
           Inr (MainNode (map statement_node stmts))"
proof -
  let ?ts = "program_tokens header stmts cb"
  let ?body = "concat (map statement_tokens stmts)"
  from assms have hd_kinds: "map kind header = [int_kw, main, open_paren, close_paren, open_brack]"
    and ok: "list_all statement_ok stmts" and cb: "kind cb = close_brack"
    by (simp_all add: program_ok_def)
  from hd_kinds have "length (map kind header) = 5"
    by simp
  then have len: "length header = 5"
    by simp
  have ts: "?ts = header @ ?body @ cb # []"
    by (simp add: program_tokens_def)
  have m: "match_tokens (py_slice_from ?ts 0) [int_kw, main, open_paren, close_paren, open_brack]
      = PyInt 5"
    using hd_kinds len by (simp add: py_slice_from_0 match_tokens_def list_all_zip_kinds ts)
  from statements_loop_collects [OF ok cb, of header "[]" "[]" p] obtain err where
    l: "statements_loop ?ts 5 [] p =
       (Inr (map statement_node stmts, 5 + 3 * int (length stmts)),
        p\<lparr>errors := errors p @ [(err, 5 + 3 * int (length stmts))]\<rparr>)"
    by (auto simp: ts len)
  have "has_kind_at ((header @ ?body) @ cb # []) (int (length (header @ ?body))) close_brack
      = Inr (kind cb = close_brack)"
    by (rule has_kind_at_append)
  then have c: "has_kind_at ?ts (5 + 3 * int (length stmts)) close_brack = Inr True"
    using cb by (simp add: ts len length_concat_statement_tokens)
  have total: "int (length ?ts) = 5 + 3 * int (length stmts) + 1"
    by (simp add: ts len length_concat_statement_tokens)
  from m l c have "expect_main ?ts 0 p =
      (Inr (Some (MainNode (map statement_node stmts)), 5 + 3 * int (length stmts) + 1),
       p\<lparr>errors := errors p @ [(err, 5 + 3 * int (length stmts))]\<rparr>)"
    by (simp add: expect_main_def)
  moreover have "py_slice_from ?ts (5 + 3 * int (length stmts) + 1) = []"
    using total by (simp add: py_slice_from_def)
  ultimately show ?thesis
    by (simp add: parse_def)
qed

theorem parse_accepts_grammar_witness:
  "program_ok (take 5 return_4)
     [(tok return_kw ''return'', tok number ''4'', tok semicolon '';'')] (tok close_brack ''}'')
   \<and> program_tokens (take 5 return_4)
     [(tok return_kw ''return'', tok number ''4'', tok semicolon '';'')] (tok close_brack ''}'')
       = return_4
   \<and> fst (parse return_4 init) = Inr (MainNode [ReturnNode (NumberNode (tok number ''4''))])"
proof -
  have ok: "program_ok (take 5 return_4)
     [(tok return_kw ''return'', tok number ''4'', tok semicolon '';'')] (tok close_brack ''}'')"
    by (simp add: program_ok_def return_4_def statement_source_simps tok_def)
  have eq: "program_tokens (take 5 return_4)
     [(tok return_kw ''return'', tok number ''4'', tok semicolon '';'')] (tok close_brack ''}'')
       = return_4"
    by (simp add: program_tokens_def return_4_def statement_source_simps)
  from parse_accepts_grammar [OF ok, of init] ok eq show ?thesis
    by (simp add: statement_source_simps)
qed

subsection \<open>Tokens after the main function\<close>

text \<open>
  C6. When \<^verbatim>\<open>expect_main\<close> succeeds and its index is below the length of the token
  list, \<^verbatim>\<open>parse\<close> raises "unexpected token" in the AT form of the token at that
  index, the first one left over, with its file name and line number. The error is
  raised and not recorded: the log is as \<^verbatim>\<open>expect_main\<close> left it.
\<close>

theorem parse_rejects_trailing_tokens:
  assumes "expect_main tokens 0 p = (Inr (Some nd, index), p1)"
    and "index < int (length tokens)"
  shows "parse tokens p =
           (Inl (Raised (at_style ''unexpected token'' (tokens ! nat index))), p1)"
proof -
  from expect_main_cases [OF assms(1)] have pos: "0 < index"
    by auto
  with assms(2) have "py_slice_from tokens index \<noteq> []"
    by (simp add: py_slice_from_nonempty)
  moreover from pos assms(2)
  have "make_error ''unexpected token'' index tokens AT =
      Inr (at_style ''unexpected token'' (tokens ! nat index))"
    by (rule make_error_inside)
  ultimately show ?thesis
    using assms(1) by (simp add: parse_def)
qed

lemma expect_main_return_4_extra:
  "expect_main return_4_extra 0 init =
     (Inr (Some (MainNode [ReturnNode (NumberNode (tok number ''4''))]), 9), log_return_4)"
  by code_simp

theorem parse_rejects_trailing_tokens_witness:
  "expect_main return_4_extra 0 init =
     (Inr (Some (MainNode [ReturnNode (NumberNode (tok number ''4''))]), 9), log_return_4)
   \<and> (9::int) < int (length return_4_extra)
   \<and> return_4_extra ! 9 = tok other_kind ''extra''
   \<and> parse return_4_extra init =
       (Inl (Raised (CompilerError (''unexpected token at '' @ [CHR 0x27] @ ''extra'' @ [CHR 0x27])
                       (Some ''main.c'') (Some 1))),
        log_return_4)"
proof -
  have len: "(9::int) < int (length return_4_extra)"
    by (simp add: return_4_extra_def return_4_def)
  have at: "return_4_extra ! 9 = tok other_kind ''extra''"
    by (simp add: return_4_extra_def return_4_def)
  from parse_rejects_trailing_tokens [OF expect_main_return_4_extra len] at len
    expect_main_return_4_extra
  show ?thesis
    by (simp add: at_style_def tok_def)
qed

subsection \<open>Termination\<close>

lemma statements_loop_total: "statements_loop_dom (tokens, index, nodes, p)"
proof -
  have "All statements_loop_dom"
  proof (rule "statements_loop.termination")
    show "wf (measure (\<lambda>(tokens, index, nodes, p). nat (int (length tokens) - index)))"
      by simp
  next
    fix tokens :: "token list" and index :: int and nodes :: "node list" and p :: parser
      and x :: "exn + node option \<times> int" and p1 :: parser and r :: "node option \<times> int"
      and o_n :: "node option" and index1 :: int and n :: node
    assume "(x, p1) = expect_statement tokens index p" "x = Inr r" "(o_n, index1) = r"
      "o_n = Some n"
    then have "expect_statement tokens index p = (Inr (Some n, index1), p1)"
      by simp
    from expect_statement_cases [OF this]
    have "index1 = index + 3 \<and> index + 2 < int (length tokens)"
      by auto
    then show "((tokens, index1, nodes @ [n], p1), (tokens, index, nodes, p))
        \<in> measure (\<lambda>(tokens, index, nodes, p). nat (int (length tokens) - index))"
      by simp
  qed
  then show ?thesis by blast
qed

text \<open>
  C9. The statement loop is well-founded from every state: every state is in the
  domain of the recursion. A matcher that returns a node returns an index greater than
  the one it was given, and at most the length of the token list for the return,
  statement and program-entry matchers; the loop advances by three tokens for each
  statement it collects and stops within the token list.
\<close>

theorem parse_terminates:
  "statements_loop_dom (tokens, index, nodes, p)
   \<and> (expect_expression tokens index p = (Inr (Some nd, index'), p') \<longrightarrow> index < index')
   \<and> (expect_return tokens index p = (Inr (Some nd, index'), p') \<longrightarrow>
         index < index' \<and> index' \<le> int (length tokens))
   \<and> (expect_statement tokens index p = (Inr (Some nd, index'), p') \<longrightarrow>
         index < index' \<and> index' \<le> int (length tokens))
   \<and> (expect_main tokens index p = (Inr (Some nd, index'), p') \<longrightarrow>
         index < index' \<and> index' \<le> int (length tokens))
   \<and> (statements_loop tokens index nodes p = (Inr (nodes', index'), p') \<longrightarrow>
         index' = index + 3 * (int (length nodes') - int (length nodes))
         \<and> length nodes \<le> length nodes'
         \<and> (index' = index \<or> index' \<le> int (length tokens)))"
proof (intro conjI impI)
  show "statements_loop_dom (tokens, index, nodes, p)"
    by (rule statements_loop_total)
next
  assume "expect_expression tokens index p = (Inr (Some nd, index'), p')"
  from expect_expression_cases [OF this] show "index < index'"
    by auto
next
  assume a: "expect_return tokens index p = (Inr (Some nd, index'), p')"
  from expect_return_cases [OF a] show "index < index'"
    by auto
  from expect_return_cases [OF a] show "index' \<le> int (length tokens)"
    by auto
next
  assume a: "expect_statement tokens index p = (Inr (Some nd, index'), p')"
  from expect_statement_cases [OF a] show "index < index'"
    by auto
  from expect_statement_cases [OF a] show "index' \<le> int (length tokens)"
    by auto
next
  assume a: "expect_main tokens index p = (Inr (Some nd, index'), p')"
  from expect_main_cases [OF a] show "index < index'"
    by auto
  from expect_main_cases [OF a] show "index' \<le> int (length tokens)"
    by auto
next
  assume a: "statements_loop tokens index nodes p = (Inr (nodes', index'), p')"
  from statements_loop_cases [OF a] obtain ns where
    h: "nodes' = nodes @ ns" "index' = index + 3 * int (length ns)"
      "ns = [] \<or> index + 3 * int (length ns) \<le> int (length tokens)"
    by auto
  from h show "index' = index + 3 * (int (length nodes') - int (length nodes))"
    by simp
  from h show "length nodes \<le> length nodes'"
    by simp
  from h show "index' = index \<or> index' \<le> int (length tokens)"
    by auto
qed

theorem parse_terminates_witness:
  "statements_loop_dom (return_4, 5, [], init)
   \<and> expect_expression return_4 6 init =
       (Inr (Some (NumberNode (tok number ''4'')), 7), init)
   \<and> expect_return return_4 5 init =
       (Inr (Some (ReturnNode (NumberNode (tok number ''4''))), 8), init)
   \<and> expect_statement return_4 5 init =
       (Inr (Some (ReturnNode (NumberNode (tok number ''4''))), 8), init)
   \<and> expect_main return_4 0 init =
       (Inr (Some (MainNode [ReturnNode (NumberNode (tok number ''4''))]), 9), log_return_4)
   \<and> statements_loop return_4 5 [] init =
       (Inr ([ReturnNode (NumberNode (tok number ''4''))], 8), log_return_4)
   \<and> (8::int) \<le> int (length return_4) \<and> (9::int) \<le> int (length return_4)"
proof -
  have e: "expect_expression return_4 6 init =
       (Inr (Some (NumberNode (tok number ''4'')), 7), init)"
    by code_simp
  have r: "expect_return return_4 5 init =
       (Inr (Some (ReturnNode (NumberNode (tok number ''4''))), 8), init)"
    by code_simp
  have s: "expect_statement return_4 5 init =
       (Inr (Some (ReturnNode (NumberNode (tok number ''4''))), 8), init)"
    by code_simp
  have m: "expect_main return_4 0 init =
       (Inr (Some (MainNode [ReturnNode (NumberNode (tok number ''4''))]), 9), log_return_4)"
    by code_simp
  have l: "statements_loop return_4 5 [] init =
       (Inr ([ReturnNode (NumberNode (tok number ''4''))], 8), log_return_4)"
    by code_simp
  from e r s m l
    parse_terminates [where tokens = return_4 and index = 5 and nodes = "[]" and p = init
      and nd = "ReturnNode (NumberNode (tok number ''4''))" and index' = 8 and p' = init]
    parse_terminates [where tokens = return_4 and index = 0 and p = init
      and nd = "MainNode [ReturnNode (NumberNode (tok number ''4''))]" and index' = 9
      and p' = log_return_4]
    parse_terminates [where tokens = return_4 and index = 6 and p = init
      and nd = "NumberNode (tok number ''4'')" and index' = 7 and p' = init]
    parse_terminates [where tokens = return_4 and index = 5 and nodes = "[]" and p = init
      and nodes' = "[ReturnNode (NumberNode (tok number ''4''))]" and index' = 8
      and p' = log_return_4]
  show ?thesis
    by simp
qed

subsection \<open>The error log only grows\<close>

lemma add_error_grows:
  "prefix (errors p) (errors (snd (add_error message index tokens message_type p)))"
  using add_error_cases [of message index tokens message_type p
      "fst (add_error message index tokens message_type p)"
      "snd (add_error message index tokens message_type p)"]
  by auto

lemma expect_expression_grows:
  "prefix (errors p) (errors (snd (expect_expression tokens index p)))"
  using expect_expression_cases [of tokens index p "fst (expect_expression tokens index p)"
      "snd (expect_expression tokens index p)"]
  by auto

lemma expect_return_grows:
  "prefix (errors p) (errors (snd (expect_return tokens index p)))"
  using expect_return_cases [of tokens index p "fst (expect_return tokens index p)"
      "snd (expect_return tokens index p)"]
  by auto

lemma expect_statement_grows:
  "prefix (errors p) (errors (snd (expect_statement tokens index p)))"
  using expect_statement_cases [of tokens index p "fst (expect_statement tokens index p)"
      "snd (expect_statement tokens index p)"]
  by auto

lemma expect_main_grows:
  "prefix (errors p) (errors (snd (expect_main tokens index p)))"
  using expect_main_cases [of tokens index p "fst (expect_main tokens index p)"
      "snd (expect_main tokens index p)"]
  by auto

lemma parse_keeps_log_of_expect_main:
  "snd (parse tokens p) = snd (expect_main tokens 0 p)"
  by (simp add: parse_def split: prod.splits sum.splits option.splits)

lemma parse_grows:
  "prefix (errors p) (errors (snd (parse tokens p)))"
  by (simp add: parse_keeps_log_of_expect_main expect_main_grows)

lemma after_call_grows:
  "prefix (errors p) (errors (after_call p c))"
  by (cases c)
    (simp_all add: parse_grows expect_main_grows expect_statement_grows expect_return_grows
      expect_expression_grows add_error_grows)

lemma calls_grow:
  "prefix (errors p) (errors (foldl after_call p calls))"
proof (induction calls arbitrary: p)
  case Nil
  show ?case by simp
next
  case (Cons c calls)
  have "prefix (errors p) (errors (after_call p c))"
    by (rule after_call_grows)
  also have "prefix (errors (after_call p c)) (errors (foldl after_call (after_call p c) calls))"
    by (rule Cons.IH)
  finally show ?case by simp
qed

text \<open>
  C10. After any sequence of calls of the methods of a parser the log it started with
  is a prefix of its log, so no record is removed and the length does not decrease;
  \<^verbatim>\<open>parse\<close> resets nothing. When \<^verbatim>\<open>expect_main\<close> fails, the error \<^verbatim>\<open>parse\<close>
  raises is selected from the records the parser held before the call followed by the
  records of the call.
\<close>

theorem error_log_only_grows:
  "prefix (errors p) (errors (foldl after_call p calls))
   \<and> length (errors p) \<le> length (errors (foldl after_call p calls))
   \<and> (expect_main tokens 0 p = (Inr (None, i0), p1) \<longrightarrow>
        (\<exists>new. new \<noteq> [] \<and> errors p1 = errors p @ new
           \<and> parse tokens p =
               (Inl (Raised (fst (last (sort_key snd (errors p @ new))))), p1)))"
proof (intro conjI impI)
  show g: "prefix (errors p) (errors (foldl after_call p calls))"
    by (rule calls_grow)
  then show "length (errors p) \<le> length (errors (foldl after_call p calls))"
    by (rule prefix_length_le)
next
  assume a: "expect_main tokens 0 p = (Inr (None, i0), p1)"
  from expect_main_cases [OF a] obtain new where n: "new \<noteq> []" "errors p1 = errors p @ new"
    by auto
  from parse_of_failure(2) [OF a] n
  show "\<exists>new. new \<noteq> [] \<and> errors p1 = errors p @ new
           \<and> parse tokens p =
               (Inl (Raised (fst (last (sort_key snd (errors p @ new))))), p1)"
    by auto
qed

lemma expect_main_second_parse:
  "expect_main [] 0 log_return_without_number = (Inr (None, 0), log_second_parse)"
  by code_simp

theorem error_log_only_grows_witness:
  "foldl after_call init [Call_parse return_without_number, Call_parse []] = log_second_parse
   \<and> expect_main [] 0 log_return_without_number = (Inr (None, 0), log_second_parse)
   \<and> parse [] log_return_without_number =
       (Inl (Raised (got_style ''expected number'' (tok semicolon '';''))), log_second_parse)"
proof -
  have run: "foldl after_call init [Call_parse return_without_number, Call_parse []]
      = log_second_parse"
    by code_simp
  from error_log_only_grows [of log_return_without_number "[]" "[]" 0 log_second_parse]
    expect_main_second_parse
  obtain new where n: "errors log_second_parse = errors log_return_without_number @ new"
    "parse [] log_return_without_number =
       (Inl (Raised (fst (last (sort_key snd (errors log_return_without_number @ new))))),
        log_second_parse)"
    by auto
  from n(1) have "errors log_return_without_number @ new = errors log_second_parse"
    by simp
  with n(2) have "parse [] log_return_without_number =
       (Inl (Raised (fst (last (sort_key snd (errors log_second_parse))))), log_second_parse)"
    by simp
  moreover have "fst (last (sort_key snd (errors log_second_parse)))
      = got_style ''expected number'' (tok semicolon '';'')"
    by code_simp
  ultimately show ?thesis
    using run expect_main_second_parse by simp
qed

end
